theory Spec2Isabelle
  imports Main
begin

section \<open>pisms: an AT-command SMS client\<close>

text \<open>
  A shallow embedding of \<^verbatim>\<open>src/pisms/__init__.py\<close>. The object \<^verbatim>\<open>self\<close> of class
  \<^verbatim>\<open>App\<close> is a record that every method takes and returns. What the methods do to the
  outside (the GPIO pin, the serial port, the log, the output streams, sleeping) is
  appended to a trace of events carried in the same record, so that "the pin level is
  never changed" or "this command was written to the modem" are statements about the
  trace. Exceptions are values of type \<open>error\<close>, returned as \<open>Inl\<close>.

  A Python \<^verbatim>\<open>str\<close> is a list of code points and a \<^verbatim>\<open>bytes\<close> a list of byte values,
  both as natural numbers. Durations are in milliseconds.
\<close>

subsection \<open>Data model\<close>

type_synonym pystr = "nat list"
type_synonym bytes = "nat list"

definition str :: "string \<Rightarrow> pystr" where
  "str cs = map of_char cs"


datatype error =
    UnicodeEncodeError
  | UnicodeDecodeError
  | RuntimeError string
  | ValueError string
  | KeyError
  | IndexError
  | TypeError
  | NameError
  | AttributeError
  | SerialException
  | CodecError
  | KeyboardInterrupt
  | SystemExit

record frag_info =
  ref :: nat
  seq :: nat
  cnt :: nat

text \<open>
  The dictionary \<^verbatim>\<open>SmsDeliver(...).data\<close>, with the key \<^verbatim>\<open>idx\<close> that \<^verbatim>\<open>list_messages\<close>
  adds. The keys \<^verbatim>\<open>ref\<close>, \<^verbatim>\<open>cnt\<close> and \<^verbatim>\<open>seq\<close> are present together or not at all.
\<close>

record message =
  idx :: pystr
  date :: int
  sender :: pystr
  msg_text :: pystr
  frag :: "frag_info option"

record pdu =
  pdu_length :: nat
  pdu_hex :: pystr

datatype level = LOW | HIGH

datatype loglevel = DEBUG | INFO | ERROR

datatype event =
    GpioSetup nat
  | GpioOutput nat level
  | Sleep nat
  | SerResetInput
  | SerResetOutput
  | SerWrite bytes
  | SerSetTimeout nat
  | SerClose
  | Log loglevel string
  | Stdout pystr
  | StdoutJson "message list"
  | Stderr pystr

text \<open>
  The fields of \<^verbatim>\<open>self\<close> that the modelled methods read or write, followed by the
  environment: \<open>modem\<close> holds, for each coming read of the serial port, the bytes the
  modem delivers within the read window and the time the read takes; \<open>clock\<close> is
  \<^verbatim>\<open>time.time()\<close>; \<open>trace\<close> lists the effects so far, oldest first.
  The GPIO pin number \<open>0\<close> means that no pin is configured, as in the source
  (\<^verbatim>\<open>if not self.pwrpin\<close>). The attributes \<^verbatim>\<open>self.active\<close> and \<^verbatim>\<open>self.inactive\<close> exist only
  once \<^verbatim>\<open>parse_args\<close> has assigned them: \<open>None\<close> is the missing attribute.
\<close>

record app =
  powered :: bool
  has_ser :: bool
  pwrpin :: nat
  pwrup :: nat
  pwrdown :: nat
  active :: "level option"
  inactive :: "level option"
  wait :: nat
  number :: pystr
  command :: pystr
  at_back :: pystr
  timeout :: nat
  ser_timeout :: nat
  port_ok :: bool
  pwrlow :: bool
  maxage :: int
  preserve :: bool
  deleteall :: bool
  stdin :: pystr
  stdin_tty :: bool
  now :: int
  clock :: nat
  modem :: "(bytes \<times> nat) list"
  trace :: "event list"

definition emit :: "event \<Rightarrow> app \<Rightarrow> app" where
  "emit e s = s\<lparr>trace := trace s @ [e]\<rparr>"

definition sleep :: "nat \<Rightarrow> app \<Rightarrow> app" where
  "sleep ms s = emit (Sleep ms) (s\<lparr>clock := clock s + ms\<rparr>)"

text \<open>Running a method on after a step that may have raised.\<close>

definition and_then ::
  "(error + unit) \<times> app \<Rightarrow> (app \<Rightarrow> (error + 'a) \<times> app) \<Rightarrow> (error + 'a) \<times> app" where
  "and_then r f = (case r of (Inl e, s) \<Rightarrow> (Inl e, s) | (Inr u, s) \<Rightarrow> f s)"

text \<open>
  The module never binds the name \<^verbatim>\<open>GPIO\<close> globally: the only binding is the local
  \<^verbatim>\<open>import RPi.GPIO as GPIO\<close> inside \<^verbatim>\<open>setup\<close>. In every other method the name is looked up
  as a global, and the lookup raises \<^verbatim>\<open>NameError\<close> before any argument is evaluated:
  \<open>gpio_output\<close> is \<^verbatim>\<open>GPIO.output(pin, level)\<close> and \<open>gpio_constant\<close> is the reading of
  \<^verbatim>\<open>GPIO.LOW\<close> or \<^verbatim>\<open>GPIO.HIGH\<close> outside \<^verbatim>\<open>setup\<close>. Inside \<^verbatim>\<open>setup\<close> the driver is bound, and
  \<open>gpio_output_local\<close> drives the pin; the level \<^verbatim>\<open>self.inactive\<close> must exist.
\<close>

definition gpio_output :: "nat \<Rightarrow> level option \<Rightarrow> app \<Rightarrow> (error + unit) \<times> app" where
  "gpio_output pin lv s = (Inl NameError, s)"

definition gpio_constant :: "level \<Rightarrow> error + level" where
  "gpio_constant lv = Inl NameError"

definition gpio_output_local :: "nat \<Rightarrow> level option \<Rightarrow> app \<Rightarrow> (error + unit) \<times> app" where
  "gpio_output_local pin lv s =
     (case lv of
        None \<Rightarrow> (Inl AttributeError, s)
      | Some l \<Rightarrow> (Inr (), emit (GpioOutput pin l) s))"

subsection \<open>Power sequencer\<close>

definition power_up :: "app \<Rightarrow> (error + unit) \<times> app" where
  "power_up s =
     (if pwrpin s = 0 then
        (Inr (), emit (Log DEBUG ''Power pin not set, skipping modem power up'') s)
      else
        and_then
          (if pwrup s \<noteq> 0 then
             and_then
               (gpio_output (pwrpin s) (active s)
                  (emit (Log INFO ''Sending modem power up signal on GPIO pin %d'') s))
               (\<lambda>s1. gpio_output (pwrpin s1) (inactive s1) (sleep (1000 * pwrup s1) s1))
           else
             gpio_output (pwrpin s) (active s)
               (emit (Log INFO ''Setting modem GPIO pin %d active'') s))
          (\<lambda>s2. (Inr (), emit SerResetOutput (emit SerResetInput (s2\<lparr>powered := True\<rparr>)))))"

definition power_down :: "app \<Rightarrow> (error + unit) \<times> app" where
  "power_down s =
     (if \<not> powered s then
        (Inr (), emit (Log DEBUG ''No modem power control, skipping power down'') s)
      else if pwrdown s \<noteq> 0 then
        and_then
          (gpio_output (pwrpin s) (active s)
             (emit (Log INFO ''Sending modem power down signal on GPIO pin %d'') s))
          (\<lambda>s1. and_then
                   (gpio_output (pwrpin s1) (inactive s1) (sleep (1000 * pwrdown s1) s1))
                   (\<lambda>s2. (Inr (), sleep 2000 s2)))
      else
        gpio_output (pwrpin s) (inactive s)
          (emit (Log INFO ''Setting modem GPIO pin %d inactive'') s))"

text \<open>The events that change the pin level or take a delay.\<close>

fun is_power_event :: "event \<Rightarrow> bool" where
  "is_power_event (GpioOutput pin lv) = True"
| "is_power_event (Sleep ms) = True"
| "is_power_event e = False"

subsection \<open>External collaborators\<close>

text \<open>
  The text codec of the language (\<^verbatim>\<open>str.encode()\<close>, \<^verbatim>\<open>bytes.decode()\<close>, both UTF-8 and
  strict, \<open>None\<close> where they raise) and the PDU codec of the \<^verbatim>\<open>messaging\<close> package
  (\<^verbatim>\<open>SmsSubmit(number, text).to_pdu()\<close> and \<^verbatim>\<open>SmsDeliver(pdu).data\<close>) are not part of the
  program: they are parameters of the model.
\<close>

record codec =
  utf8_encode :: "pystr \<Rightarrow> bytes option"
  utf8_decode :: "bytes \<Rightarrow> pystr option"
  sms_submit :: "pystr \<Rightarrow> pystr \<Rightarrow> error + pdu list"
  sms_deliver :: "pystr \<Rightarrow> error + message"

subsection \<open>Serial port\<close>

text \<open>
  \<^verbatim>\<open>Serial.read_until(expected)\<close> of pyserial: bytes are read one at a time and appended
  to the line; reading stops when the line ends with \<open>expected\<close> or when no byte arrives
  in time. The test is \<^verbatim>\<open>line[-len(expected):] == expected\<close>, which for an empty \<open>expected\<close>
  compares the whole (non-empty) line with the empty one.
\<close>

definition ends_with :: "bytes \<Rightarrow> bytes \<Rightarrow> bool" where
  "ends_with line expected =
     (expected \<noteq> [] \<and> drop (length line - length expected) line = expected)"

fun read_until :: "bytes \<Rightarrow> bytes \<Rightarrow> bytes \<Rightarrow> bytes" where
  "read_until expected line [] = line"
| "read_until expected line (c # cs) =
     (if ends_with (line @ [c]) expected then line @ [c]
      else read_until expected (line @ [c]) cs)"

definition ser_read_until :: "bytes \<Rightarrow> app \<Rightarrow> bytes \<times> app" where
  "ser_read_until expected s =
     (case modem s of
        [] \<Rightarrow> ([], s\<lparr>clock := clock s + ser_timeout s\<rparr>)
      | (rx, dt) # rest \<Rightarrow>
          (read_until expected [] rx, s\<lparr>modem := rest, clock := clock s + dt\<rparr>))"

subsection \<open>AT command engine\<close>

text \<open>The test \<^verbatim>\<open>needle in hay\<close> on strings.\<close>

fun py_in :: "'a list \<Rightarrow> 'a list \<Rightarrow> bool" where
  "py_in needle [] = (needle = [])"
| "py_in needle (h # hs) =
     (take (length needle) (h # hs) = needle \<or> py_in needle hs)"

definition at_command ::
  "codec \<Rightarrow> pystr \<Rightarrow> pystr \<Rightarrow> nat \<Rightarrow> bool \<Rightarrow> app \<Rightarrow> (error + bool \<times> pystr) \<times> app" where
  "at_command E cmd bk tmo quiet s =
     (let s1 = emit (Log DEBUG ''AT command: %s'') s;
          s2 = emit SerResetInput s1;
          s3 = emit (SerWrite [27]) s2
      in case utf8_encode E (cmd @ [13, 10]) of
           None \<Rightarrow> (Inl UnicodeEncodeError, s3)
         | Some cb \<Rightarrow>
             (let s4 = emit (SerWrite cb) s3;
                  s5 = emit (SerSetTimeout (1000 * tmo)) (s4\<lparr>ser_timeout := 1000 * tmo\<rparr>)
              in case utf8_encode E bk of
                   None \<Rightarrow> (Inl UnicodeEncodeError, s5)
                 | Some bb \<Rightarrow>
                     (let (rec_buff, s6) = ser_read_until bb s5
                      in case utf8_decode E rec_buff of
                           None \<Rightarrow> (Inl UnicodeDecodeError, s6)
                         | Some response \<Rightarrow>
                             (if \<not> py_in bk response then
                                (Inr (False, response),
                                 if quiet then s6
                                 else emit (Log ERROR ''AT Response: %s'')
                                        (emit (Log ERROR ''AT ERROR: %s'') s6))
                              else (Inr (True, response), emit (Log DEBUG ''%s'') s6)))))"

subsection \<open>Characters outside the Basic Multilingual Plane\<close>

text \<open>
  UTF-16 as Python encodes it. A code point below \<open>0x10000\<close> is one 16-bit unit (with
  the error handler \<^verbatim>\<open>surrogatepass\<close> also when it is a surrogate), a code point above
  is a pair of surrogate units. \<^verbatim>\<open>utf-16-le\<close> writes each unit low byte first;
  \<^verbatim>\<open>utf-16\<close> writes a byte order mark and then the units in the byte order of the host,
  taken to be little-endian here, and on decoding reads the byte order from the mark.
\<close>

definition utf16_units :: "nat \<Rightarrow> nat list" where
  "utf16_units c =
     (if c < 0x10000 then [c]
      else [0xD800 + (c - 0x10000) div 0x400, 0xDC00 + (c - 0x10000) mod 0x400])"

definition le_bytes :: "nat \<Rightarrow> bytes" where
  "le_bytes u = [u mod 256, u div 256]"

definition encode_utf16_le :: "pystr \<Rightarrow> bytes" where
  "encode_utf16_le t = concat (map le_bytes (concat (map utf16_units t)))"

definition from_bytes_little :: "bytes \<Rightarrow> nat" where
  "from_bytes_little bs = foldr (\<lambda>b acc. b + 256 * acc) bs 0"

definition surrogatepair :: "nat \<Rightarrow> pystr" where
  "surrogatepair c =
     (let encoded = encode_utf16_le [c]
      in [from_bytes_little (take 2 encoded), from_bytes_little (drop 2 encoded)])"

definition nonbmp :: "nat \<Rightarrow> bool" where
  "nonbmp c \<longleftrightarrow> 0x10000 \<le> c \<and> c \<le> 0x10FFFF"

definition with_surrogates :: "pystr \<Rightarrow> pystr" where
  "with_surrogates t = concat (map (\<lambda>c. if nonbmp c then surrogatepair c else [c]) t)"

definition encode_utf16_surrogatepass :: "pystr \<Rightarrow> bytes" where
  "encode_utf16_surrogatepass t = [0xFF, 0xFE] @ encode_utf16_le t"

fun units_of_bytes :: "bool \<Rightarrow> bytes \<Rightarrow> nat list option" where
  "units_of_bytes big [] = Some []"
| "units_of_bytes big [b] = None"
| "units_of_bytes big (b0 # b1 # bs) =
     map_option ((#) (if big then 256 * b0 + b1 else b0 + 256 * b1)) (units_of_bytes big bs)"

fun decode_units :: "nat list \<Rightarrow> pystr option" where
  "decode_units [] = Some []"
| "decode_units [u] = (if u < 0xD800 \<or> 0xDFFF < u then Some [u] else None)"
| "decode_units (u # l # us) =
     (if u < 0xD800 \<or> 0xDFFF < u then map_option ((#) u) (decode_units (l # us))
      else if u \<le> 0xDBFF \<and> 0xDC00 \<le> l \<and> l \<le> 0xDFFF then
        map_option ((#) (0x10000 + (u - 0xD800) * 0x400 + (l - 0xDC00))) (decode_units us)
      else None)"

definition decode_utf16 :: "bytes \<Rightarrow> pystr option" where
  "decode_utf16 bs =
     (case (if take 2 bs = [0xFF, 0xFE] then units_of_bytes False (drop 2 bs)
            else if take 2 bs = [0xFE, 0xFF] then units_of_bytes True (drop 2 bs)
            else units_of_bytes False bs) of
        None \<Rightarrow> None
      | Some us \<Rightarrow> decode_units us)"

text \<open>
  The expression \<^verbatim>\<open>text.encode('utf-16','surrogatepass').decode('utf-16')\<close> of
  \<^verbatim>\<open>list_messages\<close>; \<open>None\<close> where the decoder raises.
\<close>

definition merge_surrogates :: "pystr \<Rightarrow> pystr option" where
  "merge_surrogates t = decode_utf16 (encode_utf16_surrogatepass t)"

text \<open>A text of Unicode scalar values: code points up to \<open>0x10FFFF\<close>, none a surrogate.\<close>

definition scalar_value :: "nat \<Rightarrow> bool" where
  "scalar_value c \<longleftrightarrow> c \<le> 0x10FFFF \<and> \<not> (0xD800 \<le> c \<and> c \<le> 0xDFFF)"

subsection \<open>Strings and patterns\<close>

text \<open>\<^verbatim>\<open>'%d' % n\<close> for a non-negative \<open>n\<close>.\<close>

fun decimal :: "nat \<Rightarrow> pystr" where
  "decimal n = (if n < 10 then [48 + n] else decimal (n div 10) @ [48 + n mod 10])"

text \<open>
  The character classes of \<^verbatim>\<open>re\<close> on \<^verbatim>\<open>str\<close> patterns: \<^verbatim>\<open>\s\<close> is Unicode white space
  (also what \<^verbatim>\<open>str.strip()\<close> removes), \<^verbatim>\<open>[0-9]\<close> the ASCII digits, \<^verbatim>\<open>[\r\n]\<close>.
\<close>

definition isspace :: "nat \<Rightarrow> bool" where
  "isspace c \<longleftrightarrow>
     (9 \<le> c \<and> c \<le> 13) \<or> (28 \<le> c \<and> c \<le> 32) \<or> c = 0x85 \<or> c = 0xA0 \<or> c = 0x1680 \<or>
     (0x2000 \<le> c \<and> c \<le> 0x200A) \<or> c = 0x2028 \<or> c = 0x2029 \<or> c = 0x202F \<or>
     c = 0x205F \<or> c = 0x3000"

definition isdigit :: "nat \<Rightarrow> bool" where
  "isdigit c \<longleftrightarrow> 48 \<le> c \<and> c \<le> 57"


definition strip :: "pystr \<Rightarrow> pystr" where
  "strip t = rev (dropWhile isspace (rev (dropWhile isspace t)))"

text \<open>
  \<^verbatim>\<open>re.search(r"\+CREG:\s[0-9],(?P<status>[0-9])", response)\<close>: the group \<^verbatim>\<open>status\<close> of
  the leftmost match.
\<close>

definition creg_match :: "pystr \<Rightarrow> nat option" where
  "creg_match t =
     (if take 6 t = str ''+CREG:'' then
        (case drop 6 t of
           w # d # k # st # rest \<Rightarrow>
             if isspace w \<and> isdigit d \<and> k = 44 \<and> isdigit st then Some st else None
         | _ \<Rightarrow> None)
      else None)"

fun creg_search :: "pystr \<Rightarrow> nat option" where
  "creg_search [] = None"
| "creg_search (c # cs) =
     (case creg_match (c # cs) of Some st \<Rightarrow> Some st | None \<Rightarrow> creg_search cs)"






subsection \<open>Message lister\<close>



subsection \<open>Fragment reassembler\<close>

text \<open>
  The dictionary \<^verbatim>\<open>fragments\<close> maps a reference number to the list of the fragments
  ingested for it. It is an association list in insertion order, the order in which
  \<^verbatim>\<open>fragments.keys()\<close> is walked.
\<close>

type_synonym fragments = "(nat \<times> message list) list"

fun frag_append :: "nat \<Rightarrow> message \<Rightarrow> fragments \<Rightarrow> fragments" where
  "frag_append r d [] = [(r, [d])]"
| "frag_append r d ((k, ms) # rest) =
     (if k = r then (k, ms @ [d]) # rest else (k, ms) # frag_append r d rest)"

definition seq_of :: "message \<Rightarrow> nat" where
  "seq_of m = (case frag m of Some f \<Rightarrow> seq f | None \<Rightarrow> 0)"

text \<open>
  The body of the loop over the references, for one set: the list as the loop leaves it
  (sorted in place, its last dictionary rewritten) and, for a complete set, the emitted
  message with the slots read. \<^verbatim>\<open>list.sort\<close> is stable, as \<open>sort_key\<close> is.
\<close>

definition process_set ::
  "message list \<Rightarrow> error + message list \<times> (message \<times> pystr list) option" where
  "process_set ms =
     (case ms of
        [] \<Rightarrow> Inl IndexError
      | m0 # rest \<Rightarrow>
          (case frag m0 of
             None \<Rightarrow> Inl KeyError
           | Some f0 \<Rightarrow>
               if length ms = cnt f0 then
                 if list_ex (\<lambda>m. frag m = None) ms then Inl KeyError
                 else
                   let sorted = sort_key seq_of ms;
                       txt = concat (map msg_text sorted);
                       message = (last sorted)\<lparr>msg_text := txt, frag := None\<rparr>
                   in Inr (butlast sorted @ [message], Some (message, map idx sorted))
               else Inr (ms, None)))"

fun process_sets ::
  "fragments \<Rightarrow> message list \<Rightarrow> pystr list \<Rightarrow> error + fragments \<times> message list \<times> pystr list" where
  "process_sets [] messages read_idx = Inr ([], messages, read_idx)"
| "process_sets ((r, ms) # rest) messages read_idx =
     (case process_set ms of
        Inl e \<Rightarrow> Inl e
      | Inr (ms1, emitted) \<Rightarrow>
          (case (case emitted of
                   None \<Rightarrow> process_sets rest messages read_idx
                 | Some (message, slots) \<Rightarrow>
                     process_sets rest (messages @ [message]) (read_idx @ slots)) of
             Inl e \<Rightarrow> Inl e
           | Inr (rest1, messages1, read_idx1) \<Rightarrow> Inr ((r, ms1) # rest1, messages1, read_idx1)))"

text \<open>
  \<^verbatim>\<open>collect_fragments(fragments, data, process)\<close> returns the dictionary as mutated and the
  value returned: \<open>None\<close> for the bare \<^verbatim>\<open>return\<close>.
\<close>

definition collect_fragments ::
  "fragments \<Rightarrow> message option \<Rightarrow> bool \<Rightarrow>
   error + fragments \<times> (message list \<times> pystr list) option" where
  "collect_fragments fragments data process =
     (case (case data of
              None \<Rightarrow> Inr fragments
            | Some d \<Rightarrow>
                (case frag d of
                   None \<Rightarrow> Inl KeyError
                 | Some f \<Rightarrow> Inr (frag_append (ref f) d fragments))) of
        Inl e \<Rightarrow> Inl e
      | Inr fragments1 \<Rightarrow>
          if \<not> process then Inr (fragments1, None)
          else
            (case process_sets fragments1 [] [] of
               Inl e \<Rightarrow> Inl e
             | Inr (fragments2, messages, read_idx) \<Rightarrow>
                 Inr (fragments2, Some (messages, read_idx))))"

text \<open>Ingesting a sequence of records, one call each, as \<^verbatim>\<open>receive\<close> does.\<close>

fun ingest :: "message list \<Rightarrow> fragments \<Rightarrow> error + fragments" where
  "ingest [] fragments = Inr fragments"
| "ingest (m # ms) fragments =
     (case collect_fragments fragments (Some m) False of
        Inl e \<Rightarrow> Inl e
      | Inr (fragments1, r) \<Rightarrow> ingest ms fragments1)"

subsection \<open>Receiving\<close>






definition clear :: "codec \<Rightarrow> app \<Rightarrow> (error + bool option) \<times> app" where
  "clear E s =
     and_then
       (power_up (emit (Stderr (str ''Clearing all SMS messages from modem storage''))
          (emit (Log INFO ''Clearing all SMS messages from modem storage'') s)))
       (\<lambda>s0.
         case at_command E (str ''AT+CMGD=1,4'') (str ''OK'') 2 False s0 of
           (Inl e, s1) \<Rightarrow> (Inl e, s1)
         | (Inr (result, r), s1) \<Rightarrow> (Inr (Some result), s1))"

subsection \<open>Network registration monitor\<close>

definition creg_accepted :: "pystr \<Rightarrow> bool" where
  "creg_accepted response =
     (case creg_search response of
        None \<Rightarrow> False
      | Some st \<Rightarrow> st \<in> set (str ''1567''))"

lemma ser_read_until_clock: "clock s \<le> clock (snd (ser_read_until expected s))"
  by (simp add: ser_read_until_def split: list.splits prod.splits)

lemma at_command_clock: "clock s \<le> clock (snd (at_command E cmd bk tmo quiet s))"
proof -
  have "clock s5 \<le> clock (snd (ser_read_until bb s5))" for bb s5
    by (rule ser_read_until_clock)
  then show ?thesis
    unfolding at_command_def Let_def emit_def
    by (auto split: option.splits prod.splits simp: ser_read_until_def split: list.splits)
qed

text \<open>
  The loop of \<^verbatim>\<open>check_connection\<close>. It ends because an attempt that is not accepted is
  followed by \<^verbatim>\<open>time.sleep(1)\<close> and no read of the port turns the clock back.
\<close>

function check_loop :: "codec \<Rightarrow> nat \<Rightarrow> app \<Rightarrow> (error + unit) \<times> app" where
  "check_loop E t_end s =
     (if clock s < t_end then
        (case at_command E (str ''AT+CREG?'') (str ''OK'') 1 True s of
           (Inl e, s1) \<Rightarrow> (Inl e, s1)
         | (Inr (result, response), s1) \<Rightarrow>
             if result \<and> creg_accepted response then
               (Inr (), emit (Log INFO ''Network connection established'') s1)
             else check_loop E t_end (sleep 1000 s1))
      else (Inl (RuntimeError ''No mobile network connection''), s))"
  by pat_completeness auto
termination
proof (relation "measure (\<lambda>(E, t_end, s). t_end - clock s)")
  show "wf (measure (\<lambda>(E, t_end, s). t_end - clock s))" by simp
next
  fix E t_end s x1 s1 x2 result response
  assume a: "clock s < t_end"
     and b: "(x1, s1) = at_command E (str ''AT+CREG?'') (str ''OK'') 1 True s"
  have "clock s \<le> clock s1"
    using at_command_clock [of s E "str ''AT+CREG?''" "str ''OK''" 1 True] b [symmetric] by simp
  then show "((E, t_end, sleep 1000 s1), E, t_end, s) \<in> measure (\<lambda>(E, t_end, s). t_end - clock s)"
    using a by (simp add: sleep_def emit_def)
qed

declare check_loop.simps [simp del]

definition check_connection :: "codec \<Rightarrow> app \<Rightarrow> (error + unit) \<times> app" where
  "check_connection E s =
     check_loop E (clock s + 1000 * wait s)
       (emit (Log DEBUG ''Waiting %d seconds for mobile network connection'') s)"

subsection \<open>Message sender\<close>

definition read_message :: "app \<Rightarrow> (error + pystr) \<times> app" where
  "read_message s =
     (let s1 = (if stdin_tty s then
                  emit (Stdout (str ''> ''))
                    (emit (Stdout (str ''Enter message, press Ctrl-D on blank line to send'')) s)
                else s);
          message = strip (stdin s1)
      in if message = [] then (Inl (ValueError ''No message on stdin!''), s1)
         else (Inr message, s1))"

text \<open>
  The loop \<^verbatim>\<open>for pdu in sms.to_pdu()\<close>. The result \<open>Inr False\<close> is the \<^verbatim>\<open>return False\<close>
  inside the loop, \<open>Inr True\<close> says that the loop ran to its end.
\<close>

fun send_pdus :: "codec \<Rightarrow> pdu list \<Rightarrow> app \<Rightarrow> (error + bool) \<times> app" where
  "send_pdus E [] s = (Inr True, s)"
| "send_pdus E (p # ps) s =
     (case at_command E (str ''AT+CMGS='' @ decimal (pdu_length p) @ [13]) (str ''>'') 2 False s of
        (Inl e, s1) \<Rightarrow> (Inl e, s1)
      | (Inr (result, r), s1) \<Rightarrow>
          if result then
            (case utf8_encode E (pdu_hex p) of
               None \<Rightarrow> (Inl UnicodeEncodeError, emit (Log DEBUG ''%s'') s1)
             | Some pb \<Rightarrow>
                 (case at_command E [] (str ''OK'') 5 False
                         (emit (SerWrite [26]) (emit (SerWrite pb) (emit (Log DEBUG ''%s'') s1))) of
                    (Inl e, s2) \<Rightarrow> (Inl e, s2)
                  | (Inr (result2, r2), s2) \<Rightarrow>
                      if \<not> result2 then
                        (Inr False,
                         emit (Stderr (str ''Error sending message!''))
                           (emit (Log ERROR ''Error sending message!'') s2))
                      else send_pdus E ps s2))
          else send_pdus E ps s1)"

definition send :: "codec \<Rightarrow> app \<Rightarrow> (error + bool option) \<times> app" where
  "send E s =
     (case read_message s of
        (Inl e, s0) \<Rightarrow> (Inl e, s0)
      | (Inr message, s0) \<Rightarrow>
          and_then
            (power_up (emit (Stderr (str ''Sending SMS message to '' @ number s0))
               (emit (Log INFO ''Sending SMS message to %s'') s0)))
            (\<lambda>s1.
              case check_connection E s1 of
                (Inl e, s2) \<Rightarrow> (Inl e, s2)
              | (Inr u, s2) \<Rightarrow>
                  (case at_command E (str ''AT+CMGF=0'') (str ''OK'') 1 False s2 of
                     (Inl e, s3) \<Rightarrow> (Inl e, s3)
                   | (Inr r, s3) \<Rightarrow>
                       (case sms_submit E (number s3) (with_surrogates message) of
                          Inl e \<Rightarrow> (Inl e, s3)
                        | Inr pdus \<Rightarrow>
                            (case send_pdus E pdus s3 of
                               (Inl e, s4) \<Rightarrow> (Inl e, s4)
                             | (Inr False, s4) \<Rightarrow> (Inr (Some False), s4)
                             | (Inr True, s4) \<Rightarrow>
                                 (Inr (Some True),
                                  emit (Stderr (str ''Message sent successfully''))
                                    (emit (Log INFO ''Message sent successfully'') s4)))))))"

subsection \<open>Information and raw commands\<close>

text \<open>
  One step of \<^verbatim>\<open>modem_info\<close>: \<^verbatim>\<open>_, res = self.at_command(q, "OK", 1)\<close> and
  \<^verbatim>\<open>print(res)\<close>, the latter after the lines of \<open>heading\<close>.
\<close>

definition query :: "codec \<Rightarrow> pystr \<Rightarrow> pystr list \<Rightarrow> app \<Rightarrow> (error + unit) \<times> app" where
  "query E q heading s =
     (case at_command E q (str ''OK'') 1 False s of
        (Inl e, s1) \<Rightarrow> (Inl e, s1)
      | (Inr (result, res), s1) \<Rightarrow>
          (Inr (), emit (Stdout res) (fold (\<lambda>h. emit (Stdout h)) heading s1)))"

fun queries :: "codec \<Rightarrow> (pystr \<times> pystr list) list \<Rightarrow> app \<Rightarrow> (error + unit) \<times> app" where
  "queries E [] s = (Inr (), s)"
| "queries E ((q, heading) # rest) s =
     (case query E q heading s of
        (Inl e, s1) \<Rightarrow> (Inl e, s1)
      | (Inr u, s1) \<Rightarrow> queries E rest s1)"

text \<open>\<^verbatim>\<open>modem_info\<close> and \<^verbatim>\<open>at\<close> have no \<^verbatim>\<open>return\<close> statement: they return \<^verbatim>\<open>None\<close>.\<close>

definition modem_info :: "codec \<Rightarrow> app \<Rightarrow> (error + bool option) \<times> app" where
  "modem_info E s =
     and_then
       (power_up (emit (Stdout (str ''Querying modem information...'')) s))
       (\<lambda>s0.
         case queries E
               [(str ''ATI'', []), (str ''AT+CPIN?'', []), (str ''AT+CIMI'', [str ''AT+CIMI'']),
                (str ''AT+CSQ'', []), (str ''AT+CREG?'', []), (str ''AT+COPS?'', [])]
               s0 of
           (Inl e, s1) \<Rightarrow> (Inl e, s1)
         | (Inr u, s1) \<Rightarrow> (Inr None, s1))"

definition at :: "codec \<Rightarrow> app \<Rightarrow> (error + bool option) \<times> app" where
  "at E s =
     (case at_command E (command s) (at_back s) (timeout s) False
             (emit (Stdout (command s)) (emit (Log INFO ''Sending specified AT command'') s)) of
        (Inl e, s1) \<Rightarrow> (Inl e, s1)
      | (Inr (result, res), s1) \<Rightarrow> (Inr None, emit (Stdout res) s1))"

subsection \<open>Session\<close>

text \<open>
  Of \<^verbatim>\<open>parse_args\<close> the model keeps what it computes from the arguments, the two pin
  levels; the arguments themselves are the fields of the record. With a power pin the
  levels are read from \<^verbatim>\<open>GPIO\<close>, which is not bound there.
\<close>

definition parse_args :: "app \<Rightarrow> (error + unit) \<times> app" where
  "parse_args s =
     (if pwrpin s \<noteq> 0 then
        (case gpio_constant (if pwrlow s then LOW else HIGH) of
           Inl e \<Rightarrow> (Inl e, s)
         | Inr a \<Rightarrow>
             (case gpio_constant (if pwrlow s then HIGH else LOW) of
                Inl e \<Rightarrow> (Inl e, s\<lparr>active := Some a\<rparr>)
              | Inr i \<Rightarrow> (Inr (), s\<lparr>active := Some a, inactive := Some i\<rparr>)))
      else (Inr (), s))"

text \<open>
  \<^verbatim>\<open>setup\<close> opens the port: \<^verbatim>\<open>serial.Serial(port=...)\<close> raises \<^verbatim>\<open>SerialException\<close> when
  the device cannot be opened or configured (\<open>port_ok\<close> false). With a power pin it
  imports the driver and sets the pin up.
\<close>

definition setup_app :: "app \<Rightarrow> (error + unit) \<times> app" where
  "setup_app s =
     (let s0 = emit (Log INFO ''Setting up serial port %s at %d %s'') s
      in if \<not> port_ok s0 then (Inl SerialException, s0)
         else
           let s1 = emit SerResetOutput (emit SerResetInput (s0\<lparr>has_ser := True\<rparr>))
           in if pwrpin s1 \<noteq> 0 then
                gpio_output_local (pwrpin s1) (inactive s1)
                  (sleep 100 (emit (GpioSetup (pwrpin s1)) (emit (Log DEBUG ''Setup GPIO pin %d'') s1)))
              else (Inr (), s1))"

text \<open>
  \<^verbatim>\<open>cleanup\<close>. Its last statement, \<^verbatim>\<open>if 'GPIO' in sys.modules: GPIO.cleanup()\<close>, does nothing:
  the driver is imported as \<^verbatim>\<open>RPi.GPIO\<close>, and that is its key in \<^verbatim>\<open>sys.modules\<close>.
\<close>

definition cleanup :: "app \<Rightarrow> (error + unit) \<times> app" where
  "cleanup s =
     (let s0 = emit (Log INFO ''Closing serial port and cleaning up GPIO'') s;
          s1 = (if has_ser s0 then emit SerClose s0 else s0)
      in power_down s1)"

text \<open>
  The \<^verbatim>\<open>finally\<close> clause of \<^verbatim>\<open>run\<close>: \<open>r\<close> is what the \<^verbatim>\<open>try\<close> statement would return or
  raise; an exception raised by \<^verbatim>\<open>cleanup\<close> takes its place.
\<close>

definition finally_cleanup :: "error + int \<Rightarrow> app \<Rightarrow> (error + int) \<times> app" where
  "finally_cleanup r s =
     (case cleanup s of
        (Inl e, s1) \<Rightarrow> (Inl e, s1)
      | (Inr u, s1) \<Rightarrow> (r, s1))"

text \<open>
  \<^verbatim>\<open>App.run\<close>, with the bound method \<^verbatim>\<open>self.cmd\<close> as the parameter \<open>cmd\<close>. The result is
  the exit status returned, or the exception that leaves \<^verbatim>\<open>run\<close>.
\<close>

definition run ::
  "(app \<Rightarrow> (error + bool option) \<times> app) \<Rightarrow> app \<Rightarrow> (error + int) \<times> app" where
  "run cmd s =
     and_then (parse_args s)
       (\<lambda>s0. and_then (setup_app s0)
          (\<lambda>s1. case cmd s1 of
                  (Inr v, s2) \<Rightarrow> finally_cleanup (Inr (if v = Some True then 0 else 1)) s2
                | (Inl e, s2) \<Rightarrow>
                    if e = KeyboardInterrupt \<or> e = SystemExit then
                      finally_cleanup (Inr 0) (emit (Log INFO ''Received interrupt. Exiting...'') s2)
                    else finally_cleanup (Inl e) s2))"

text \<open>The number of times \<^verbatim>\<open>cleanup\<close> has been entered, read off the trace.\<close>

definition cleanups :: "event list \<Rightarrow> nat" where
  "cleanups tr = length (filter (\<lambda>e. e = Log INFO ''Closing serial port and cleaning up GPIO'') tr)"

subsection \<open>Sample inputs\<close>

text \<open>
  The object after \<^verbatim>\<open>App.__init__\<close> with the defaults of the command line: no power pin,
  no pulses, eighteen seconds of waiting for the network, silent modem.
\<close>

definition initial_app :: app where
  "initial_app =
     \<lparr>powered = False, has_ser = False, pwrpin = 0, pwrup = 0, pwrdown = 0,
      active = None, inactive = None, wait = 18, number = [], command = [],
      at_back = str ''OK'', timeout = 2, ser_timeout = 0, port_ok = True, pwrlow = False,
      maxage = 1, preserve = False, deleteall = False, stdin = [], stdin_tty = False,
      now = 0, clock = 0, modem = [], trace = []\<rparr>"


text \<open>
  A stand-in for the two codecs, for evaluating the model on ASCII data: the text codec
  is the identity on bytes below 128 and raises on others; a PDU is its own text, cut in
  chunks of four characters on sending; on receipt its first character is the date, or
  the letter \<^verbatim>\<open>F\<close> followed by reference, sequence number, count and date for a fragment.
\<close>

definition sample_deliver :: "pystr \<Rightarrow> error + message" where
  "sample_deliver p =
     (case p of
        [] \<Rightarrow> Inl CodecError
      | d # body \<Rightarrow>
          if d = 70 then
            (case body of
               r # q # n # a # t \<Rightarrow>
                 Inr \<lparr>idx = [], date = int a, sender = [], msg_text = t,
                      frag = Some \<lparr>ref = r, seq = q - 48, cnt = n - 48\<rparr>\<rparr>
             | _ \<Rightarrow> Inl CodecError)
          else Inr \<lparr>idx = [], date = int d, sender = [], msg_text = body, frag = None\<rparr>)"

fun chunks :: "nat \<Rightarrow> pystr \<Rightarrow> pdu list" where
  "chunks 0 t = []"
| "chunks (Suc n) t =
     (if t = [] then []
      else \<lparr>pdu_length = length (take 4 t), pdu_hex = take 4 t\<rparr> # chunks n (drop 4 t))"

definition sample_codec :: codec where
  "sample_codec =
     \<lparr>utf8_encode = (\<lambda>t. if list_all (\<lambda>c. c < 128) t then Some t else None),
      utf8_decode = (\<lambda>b. if list_all (\<lambda>c. c < 128) b then Some b else None),
      sms_submit = (\<lambda>n t. Inr (chunks (length t) t)),
      sms_deliver = sample_deliver\<rparr>"

text \<open>A modem that answers the next command with one line, after 120 milliseconds.\<close>

definition answering :: "string \<Rightarrow> app" where
  "answering r = initial_app\<lparr>modem := [([13, 10] @ str r @ [13, 10], 120)]\<rparr>"

text \<open>
  The reassembly in the words of the specification. The count a set declares is the
  \<^verbatim>\<open>cnt\<close> of its first member; a set is complete when it has that many members; the
  message of a complete set is its last member in the order of the sequence numbers,
  with the texts of all members concatenated in that order, and its slots are those of
  the members.
\<close>

definition declared_count :: "message list \<Rightarrow> nat option" where
  "declared_count ms = (case ms of [] \<Rightarrow> None | m0 # rest \<Rightarrow> map_option cnt (frag m0))"

definition spec_complete :: "message list \<Rightarrow> bool" where
  "spec_complete ms \<longleftrightarrow> declared_count ms = Some (length ms)"

definition spec_message :: "message list \<Rightarrow> message" where
  "spec_message ms =
     (last (sort_key seq_of ms))\<lparr>msg_text := concat (map msg_text (sort_key seq_of ms)), frag := None\<rparr>"

definition spec_slots :: "message list \<Rightarrow> pystr list" where
  "spec_slots ms = map idx (sort_key seq_of ms)"

definition ref_of :: "message \<Rightarrow> nat option" where
  "ref_of m = map_option ref (frag m)"

definition members :: "fragments \<Rightarrow> nat \<Rightarrow> message list" where
  "members F r = (case map_of F r of None \<Rightarrow> [] | Some ms \<Rightarrow> ms)"

definition good_set :: "nat \<times> message list \<Rightarrow> bool" where
  "good_set p \<longleftrightarrow> snd p \<noteq> [] \<and> list_all (\<lambda>m. ref_of m = Some (fst p)) (snd p)"

text \<open>Fragment \<open>q\<close> of \<open>n\<close> of the concatenated message with reference 7, stored in \<open>slot\<close>.\<close>

definition part :: "nat \<Rightarrow> nat \<Rightarrow> nat \<Rightarrow> message" where
  "part slot q n =
     \<lparr>idx = decimal slot, date = 100 + int q, sender = str ''+15550100'',
      msg_text = str ''part'' @ decimal q, frag = Some \<lparr>ref = 7, seq = q, cnt = n\<rparr>\<rparr>"





text \<open>
  The raw command \<^verbatim>\<open>pisms at ATI\<close> on a modem that answers \<^verbatim>\<open>OK\<close>, and an operation
  that is interrupted at once.
\<close>

definition raw_at :: app where
  "raw_at = (answering ''OK'')\<lparr>command := str ''ATI''\<rparr>"

definition interrupted :: "app \<Rightarrow> (error + bool option) \<times> app" where
  "interrupted s = (Inl KeyboardInterrupt, s)"


text \<open>
  Sending: a modem that reports registration (\<^verbatim>\<open>+CREG: 0,1\<close>) and accepts PDU mode, then
  answers as \<open>replies\<close> says; the message comes from standard input. With
  \<open>prompt_lost\<close> the prompt \<^verbatim>\<open>>\<close> of the first chunk never arrives and the second chunk
  goes through; with \<open>ack_lost\<close> the first chunk is prompted for and never acknowledged.
\<close>

definition registered :: "(bytes \<times> nat) list" where
  "registered =
     [([13, 10] @ str ''+CREG: 0,1'' @ [13, 10, 13, 10] @ str ''OK'' @ [13, 10], 50),
      ([13, 10] @ str ''OK'' @ [13, 10], 20)]"

definition sending :: "string \<Rightarrow> (bytes \<times> nat) list \<Rightarrow> app" where
  "sending message replies =
     initial_app\<lparr>number := str ''+15550100'', stdin := str message @ [10],
                 modem := registered @ replies\<rparr>"

definition prompt_lost :: "(bytes \<times> nat) list" where
  "prompt_lost =
     [([], 2000), (str ''> '', 10),
      ([13, 10] @ str ''+CMGS: 5'' @ [13, 10, 13, 10] @ str ''OK'' @ [13, 10], 900)]"

definition ack_lost :: "(bytes \<times> nat) list" where
  "ack_lost = [(str ''> '', 10), ([], 5000)]"



definition options :: "app \<Rightarrow> bool \<times> bool \<times> int \<times> int" where
  "options s = (preserve s, deleteall s, now s, maxage s)"













section \<open>Properties\<close>

subsection \<open>Power sequencer\<close>

text \<open>
  Claim C5. While the flag \<open>powered\<close> is not set, \<open>power_down\<close> is a no-op: it returns
  normally, adds no change of the pin level and no delay to the trace, the clock does
  not move, and the flag stays unset. With no power pin configured \<open>power_up\<close> returns
  normally and does not set the flag, so that powering up and then down changes no pin
  level and takes no delay either.
\<close>

theorem power_down_noop:
  assumes "\<not> powered s"
  shows "fst (power_down s) = Inr ()
       \<and> filter is_power_event (trace (snd (power_down s))) = filter is_power_event (trace s)
       \<and> clock (snd (power_down s)) = clock s
       \<and> \<not> powered (snd (power_down s))
       \<and> (pwrpin s = 0 \<longrightarrow>
            fst (power_up s) = Inr ()
          \<and> \<not> powered (snd (power_up s))
          \<and> fst (power_down (snd (power_up s))) = Inr ()
          \<and> filter is_power_event (trace (snd (power_down (snd (power_up s)))))
              = filter is_power_event (trace s)
          \<and> clock (snd (power_down (snd (power_up s)))) = clock s)"
  using assms by (simp add: power_down_def power_up_def emit_def)

theorem power_down_noop_witness:
  "\<not> powered initial_app \<and> pwrpin initial_app = 0
   \<and> fst (power_down (snd (power_up initial_app))) = Inr ()
   \<and> filter is_power_event (trace (snd (power_down (snd (power_up initial_app))))) = []
   \<and> clock (snd (power_down (snd (power_up initial_app)))) = 0"
  using power_down_noop [of initial_app] by (simp add: initial_app_def)

subsection \<open>Surrogate pairs\<close>

lemma units_of_le_bytes: "units_of_bytes False (concat (map le_bytes us)) = Some us"
  by (induction us) (simp_all add: le_bytes_def)

lemma surrogatepair_units:
  "surrogatepair c = utf16_units c" if "0x10000 \<le> c"
  using that by (simp add: surrogatepair_def encode_utf16_le_def utf16_units_def le_bytes_def
      from_bytes_little_def Let_def)

lemma utf16_units_surrogatepair:
  assumes "nonbmp c"
  shows "concat (map utf16_units (surrogatepair c)) = utf16_units c"
proof -
  have "(c - 0x10000) div 0x400 \<le> 0x3FF" using assms unfolding nonbmp_def by arith
  moreover have "(c - 0x10000) mod 0x400 \<le> 0x3FF" by simp
  ultimately show ?thesis using assms
    unfolding nonbmp_def
    by (simp add: surrogatepair_units) (simp add: utf16_units_def)
qed

lemma units_with_surrogates:
  "concat (map utf16_units (with_surrogates t)) = concat (map utf16_units t)"
  by (induction t) (simp_all add: with_surrogates_def utf16_units_surrogatepair)

lemma decode_units_plain:
  "u < 0xD800 \<or> 0xDFFF < u \<Longrightarrow> decode_units (u # us) = map_option ((#) u) (decode_units us)"
  by (cases us) simp_all

lemma decode_units_scalar:
  assumes "scalar_value c"
  shows "decode_units (utf16_units c @ us) = map_option ((#) c) (decode_units us)"
proof (cases "c < 0x10000")
  case True
  then show ?thesis using assms
    by (auto simp: utf16_units_def scalar_value_def decode_units_plain)
next
  case False
  define d where "d = c - 0x10000"
  have c: "c = 0x10000 + d" using False by (simp add: d_def)
  have d: "d div 0x400 \<le> 0x3FF" using assms unfolding scalar_value_def d_def by arith
  have m: "d mod 0x400 \<le> 0x3FF" by simp
  have "0x10000 + (d div 0x400) * 0x400 + d mod 0x400 = c"
    by (simp add: c)
  then show ?thesis using False d m
    unfolding utf16_units_def d_def[symmetric]
    by (simp add: c add.commute)
qed

lemma decode_units_text:
  "\<forall>c\<in>set t. scalar_value c \<Longrightarrow> decode_units (concat (map utf16_units t)) = Some t"
  by (induction t) (simp_all add: decode_units_scalar)

text \<open>
  Claim C6, as stated: for every text, \<open>with_surrogates\<close> and then the UTF-16 decoding of
  \<^verbatim>\<open>list_messages\<close> give the text back. This fails for a text that holds a surrogate code
  point, which a Python \<^verbatim>\<open>str\<close> may (standard input read with the error handler
  \<^verbatim>\<open>surrogateescape\<close> turns the stray byte \<^verbatim>\<open>0x80\<close> into \<open>U+DC80\<close>): the strict decoder
  rejects the lone surrogate.
\<close>

theorem roundtrip_counterexample:
  "merge_surrogates (with_surrogates [0xDC80]) \<noteq> Some [0xDC80]"
  by (simp add: merge_surrogates_def with_surrogates_def nonbmp_def encode_utf16_surrogatepass_def
      encode_utf16_le_def utf16_units_def le_bytes_def decode_utf16_def)

text \<open>
  Claim C6, amended: for every text of Unicode scalar values, characters outside the
  Basic Multilingual Plane included, \<open>with_surrogates\<close> and then the UTF-16 decoding of
  \<^verbatim>\<open>list_messages\<close> give the text back unchanged.
\<close>

theorem roundtrip:
  assumes "\<forall>c\<in>set t. scalar_value c"
  shows "merge_surrogates (with_surrogates t) = Some t"
  using assms
  by (simp add: merge_surrogates_def decode_utf16_def encode_utf16_surrogatepass_def
      encode_utf16_le_def units_of_le_bytes units_with_surrogates decode_units_text)

theorem roundtrip_witness:
  "scalar_value 0x48 \<and> scalar_value 0x1F600 \<and> scalar_value 0xE9
   \<and> with_surrogates [0x48, 0x1F600, 0xE9] = [0x48, 0xD83D, 0xDE00, 0xE9]
   \<and> merge_surrogates [0x48, 0xD83D, 0xDE00, 0xE9] = Some [0x48, 0x1F600, 0xE9]"
proof -
  have h: "\<forall>c\<in>set [0x48, 0x1F600, 0xE9]. scalar_value c"
    by (simp add: scalar_value_def)
  have w: "with_surrogates [0x48, 0x1F600, 0xE9] = [0x48, 0xD83D, 0xDE00, 0xE9]"
    by (simp add: with_surrogates_def nonbmp_def surrogatepair_def encode_utf16_le_def
        utf16_units_def le_bytes_def from_bytes_little_def)
  show ?thesis using h w roundtrip [OF h] by (simp add: scalar_value_def)
qed

subsection \<open>AT command engine\<close>








subsection \<open>Fragment reassembler\<close>

lemma process_set_good:
  assumes "good_set (r, ms)"
  shows "process_set ms =
           (if spec_complete ms
            then Inr (butlast (sort_key seq_of ms) @ [spec_message ms], Some (spec_message ms, spec_slots ms))
            else Inr (ms, None))"
proof -
  obtain m0 rest where ms: "ms = m0 # rest" using assms by (cases ms) (auto simp: good_set_def)
  have all: "\<forall>m\<in>set ms. frag m \<noteq> None"
    using assms by (auto simp: good_set_def list_all_iff ref_of_def)
  then obtain f0 where f0: "frag m0 = Some f0" using ms by auto
  have nex: "\<not> list_ex (\<lambda>m. frag m = None) ms" using all by (simp add: list_ex_iff)
  show ?thesis
    using nex unfolding process_set_def spec_complete_def declared_count_def
      spec_message_def spec_slots_def Let_def
    by (auto simp: ms f0)
qed

lemma process_sets_good:
  assumes "list_all good_set F"
  shows "\<exists>F'. process_sets F messages read_idx =
           Inr (F', messages @ map spec_message (filter spec_complete (map snd F)),
                read_idx @ concat (map spec_slots (filter spec_complete (map snd F))))"
  using assms
proof (induction F arbitrary: messages read_idx)
  case Nil
  then show ?case by simp
next
  case (Cons p F)
  obtain r ms where p: "p = (r, ms)" by (cases p)
  have g: "good_set (r, ms)" and gs: "list_all good_set F" using Cons.prems p by auto
  show ?case
  proof (cases "spec_complete ms")
    case True
    from Cons.IH [OF gs, of "messages @ [spec_message ms]" "read_idx @ spec_slots ms"]
    obtain F' where "process_sets F (messages @ [spec_message ms]) (read_idx @ spec_slots ms) =
        Inr (F', (messages @ [spec_message ms]) @ map spec_message (filter spec_complete (map snd F)),
             (read_idx @ spec_slots ms) @ concat (map spec_slots (filter spec_complete (map snd F))))"
      by blast
    then show ?thesis using True by (simp add: p process_set_good [OF g])
  next
    case False
    from Cons.IH [OF gs, of messages read_idx]
    obtain F' where "process_sets F messages read_idx =
        Inr (F', messages @ map spec_message (filter spec_complete (map snd F)),
             read_idx @ concat (map spec_slots (filter spec_complete (map snd F))))"
      by blast
    then show ?thesis using False by (simp add: p process_set_good [OF g])
  qed
qed

lemma frag_append_keys: "fst ` set (frag_append r d F) = insert r (fst ` set F)"
  by (induction r d F rule: frag_append.induct) auto

lemma frag_append_distinct: "distinct (map fst F) \<Longrightarrow> distinct (map fst (frag_append r d F))"
proof (induction F)
  case Nil
  then show ?case by simp
next
  case (Cons p F)
  obtain k ms where p: "p = (k, ms)" by (cases p)
  have "fst ` set (frag_append r d F) = insert r (fst ` set F)" by (rule frag_append_keys)
  then show ?case using Cons by (auto simp: p)
qed

lemma frag_append_members:
  "members (frag_append r d F) k = (if k = r then members F r @ [d] else members F k)"
  by (induction r d F rule: frag_append.induct) (auto simp: members_def)

lemma frag_append_good:
  "list_all good_set F \<Longrightarrow> ref_of d = Some r \<Longrightarrow> list_all good_set (frag_append r d F)"
  by (induction r d F rule: frag_append.induct) (auto simp: good_set_def)

lemma ingest_groups:
  assumes "ingest msgs F0 = Inr F" and "distinct (map fst F0)" and "list_all good_set F0"
  shows "distinct (map fst F) \<and> list_all good_set F
       \<and> (\<forall>k. members F k = members F0 k @ filter (\<lambda>m. ref_of m = Some k) msgs)"
  using assms
proof (induction msgs arbitrary: F0)
  case Nil
  then show ?case by simp
next
  case (Cons m msgs)
  from Cons.prems(1) obtain f where f: "frag m = Some f"
    by (cases "frag m") (auto simp: collect_fragments_def)
  have step: "ingest msgs (frag_append (ref f) m F0) = Inr F"
    using Cons.prems(1) by (simp add: collect_fragments_def f)
  have r: "ref_of m = Some (ref f)" by (simp add: ref_of_def f)
  have d: "distinct (map fst (frag_append (ref f) m F0))"
    using Cons.prems(2) by (rule frag_append_distinct)
  have g: "list_all good_set (frag_append (ref f) m F0)"
    using Cons.prems(3) r by (rule frag_append_good)
  from Cons.IH [OF step d g] show ?case
    by (auto simp: frag_append_members r)
qed

lemma members_of_set:
  "distinct (map fst F) \<Longrightarrow> (r, ms) \<in> set F \<Longrightarrow> members F r = ms"
  by (simp add: members_def)


text \<open>
  Claim C2. Let \<open>F\<close> be the fragment sets held after ingesting the records \<open>msgs\<close>: one
  set for each reference, holding the records with that reference in the order of
  ingestion. Then \<open>collect_fragments\<close> with \<^verbatim>\<open>process=True\<close> emits one message for each
  set whose number of members equals its declared count, and none for any other set.
  The text of an emitted message is the concatenation of the members' texts in ascending
  order of sequence number, its other fields are those of the last member in that order,
  and the list of slots returned holds the slots of the members of the complete sets and
  nothing else.
\<close>

theorem reassembly:
  assumes "ingest msgs [] = Inr F"
  shows "(\<exists>F'. collect_fragments F None True =
            Inr (F', Some (map spec_message (filter spec_complete (map snd F)),
                           concat (map spec_slots (filter spec_complete (map snd F))))))
       \<and> distinct (map fst F)
       \<and> (\<forall>(r, ms) \<in> set F. ms \<noteq> [] \<and> ms = filter (\<lambda>m. ref_of m = Some r) msgs)
       \<and> set (concat (map spec_slots (filter spec_complete (map snd F))))
           = (\<Union>ms \<in> {ms \<in> snd ` set F. spec_complete ms}. idx ` set ms)
       \<and> (\<forall>ms \<in> snd ` set F. sorted (map seq_of (sort_key seq_of ms))
             \<and> set (sort_key seq_of ms) = set ms \<and> length (sort_key seq_of ms) = length ms)"
proof -
  have g: "distinct (map fst F) \<and> list_all good_set F
       \<and> (\<forall>k. members F k = members [] k @ filter (\<lambda>m. ref_of m = Some k) msgs)"
    using ingest_groups [OF assms] by simp
  then have good: "list_all good_set F" and dist: "distinct (map fst F)" by simp_all
  have 1: "\<exists>F'. collect_fragments F None True =
            Inr (F', Some (map spec_message (filter spec_complete (map snd F)),
                           concat (map spec_slots (filter spec_complete (map snd F)))))"
    using process_sets_good [OF good, of "[]" "[]"] by (auto simp: collect_fragments_def)
  have 3: "ms \<noteq> [] \<and> ms = filter (\<lambda>m. ref_of m = Some r) msgs" if "(r, ms) \<in> set F" for r ms
  proof -
    have "members F r = ms" using dist that by (rule members_of_set)
    moreover have "members F r = filter (\<lambda>m. ref_of m = Some r) msgs"
      using g by (simp add: members_def)
    moreover have "good_set (r, ms)" using good that by (auto simp: list_all_iff)
    ultimately show ?thesis by (simp add: good_set_def)
  qed
  have 4: "set (concat (map spec_slots (filter spec_complete (map snd F))))
           = (\<Union>ms \<in> {ms \<in> snd ` set F. spec_complete ms}. idx ` set ms)"
    by (auto simp: spec_slots_def)
  have 5: "\<forall>ms \<in> snd ` set F. sorted (map seq_of (sort_key seq_of ms))
             \<and> set (sort_key seq_of ms) = set ms \<and> length (sort_key seq_of ms) = length ms"
    by simp
  show ?thesis using 1 dist 3 4 5 by blast
qed

theorem reassembly_witness:
  "ingest [part 4 3 3, part 5 1 3, part 6 2 3] [] = Inr [(7, [part 4 3 3, part 5 1 3, part 6 2 3])]
   \<and> map_sum id snd (collect_fragments [(7, [part 4 3 3, part 5 1 3, part 6 2 3])] None True)
       = Inr (Some ([\<lparr>idx = str ''4'', date = 103, sender = str ''+15550100'',
                         msg_text = str ''part1part2part3'', frag = None\<rparr>],
                    [str ''5'', str ''6'', str ''4'']))
   \<and> ingest [part 4 3 3, part 5 1 3] [] = Inr [(7, [part 4 3 3, part 5 1 3])]
   \<and> map_sum id snd (collect_fragments [(7, [part 4 3 3, part 5 1 3])] None True)
       = Inr (Some ([], []))"
proof -
  have a: "ingest [part 4 3 3, part 5 1 3, part 6 2 3] [] = Inr [(7, [part 4 3 3, part 5 1 3, part 6 2 3])]"
    by (simp add: collect_fragments_def part_def)
  have b: "ingest [part 4 3 3, part 5 1 3] [] = Inr [(7, [part 4 3 3, part 5 1 3])]"
    by (simp add: collect_fragments_def part_def)
  have c: "spec_complete [part 4 3 3, part 5 1 3, part 6 2 3]"
    by (simp add: spec_complete_def declared_count_def part_def)
  have d: "\<not> spec_complete [part 4 3 3, part 5 1 3]"
    by (simp add: spec_complete_def declared_count_def part_def)
  have s: "sort_key seq_of [part 4 3 3, part 5 1 3, part 6 2 3] = [part 5 1 3, part 6 2 3, part 4 3 3]"
    by (simp add: seq_of_def part_def)
  have e: "spec_message [part 4 3 3, part 5 1 3, part 6 2 3]
             = \<lparr>idx = str ''4'', date = 103, sender = str ''+15550100'',
                msg_text = str ''part1part2part3'', frag = None\<rparr>"
    unfolding spec_message_def s by (simp add: part_def str_def)
  have f: "spec_slots [part 4 3 3, part 5 1 3, part 6 2 3] = [str ''5'', str ''6'', str ''4'']"
    unfolding spec_slots_def s by (simp add: part_def str_def)
  have "\<exists>F'. collect_fragments [(7, [part 4 3 3, part 5 1 3, part 6 2 3])] None True =
          Inr (F', Some ([spec_message [part 4 3 3, part 5 1 3, part 6 2 3]],
                          spec_slots [part 4 3 3, part 5 1 3, part 6 2 3]))"
    using reassembly [OF a, THEN conjunct1] c by simp
  then obtain F1 where "collect_fragments [(7, [part 4 3 3, part 5 1 3, part 6 2 3])] None True =
          Inr (F1, Some ([spec_message [part 4 3 3, part 5 1 3, part 6 2 3]],
                          spec_slots [part 4 3 3, part 5 1 3, part 6 2 3]))"
    by blast
  then have g: "map_sum id snd (collect_fragments [(7, [part 4 3 3, part 5 1 3, part 6 2 3])] None True)
       = Inr (Some ([\<lparr>idx = str ''4'', date = 103, sender = str ''+15550100'',
                         msg_text = str ''part1part2part3'', frag = None\<rparr>],
                    [str ''5'', str ''6'', str ''4'']))"
    unfolding e f by simp
  have "\<exists>F'. collect_fragments [(7, [part 4 3 3, part 5 1 3])] None True = Inr (F', Some ([], []))"
    using reassembly [OF b, THEN conjunct1] d by simp
  then obtain F2 where "collect_fragments [(7, [part 4 3 3, part 5 1 3])] None True = Inr (F2, Some ([], []))"
    by blast
  then have h: "map_sum id snd (collect_fragments [(7, [part 4 3 3, part 5 1 3])] None True)
       = Inr (Some ([], []))"
    by simp
  show ?thesis using a b g h by blast
qed

















subsection \<open>Session\<close>

lemma at_command_errors:
  "fst (at_command E cmd bk tmo quiet s) = Inl e \<Longrightarrow> e = UnicodeEncodeError \<or> e = UnicodeDecodeError"
  by (auto simp: at_command_def Let_def split: option.splits prod.splits if_splits)

lemma at_result: "fst (at E s) = Inr None \<or> fst (at E s) = Inl UnicodeEncodeError \<or> fst (at E s) = Inl UnicodeDecodeError"
proof (cases "at_command E (command s) (at_back s) (timeout s) False
             (emit (Stdout (command s)) (emit (Log INFO ''Sending specified AT command'') s))")
  case (Pair r s1)
  show ?thesis
  proof (cases r)
    case (Inl e)
    then have "e = UnicodeEncodeError \<or> e = UnicodeDecodeError"
      using at_command_errors [of E "command s" "at_back s" "timeout s" False
          "emit (Stdout (command s)) (emit (Log INFO ''Sending specified AT command'') s)" e] Pair
      by simp
    then show ?thesis using Pair Inl by (auto simp: at_def)
  next
    case (Inr v)
    then show ?thesis using Pair by (cases v) (simp add: at_def)
  qed
qed

lemma finally_cleanup_zero:
  "fst (finally_cleanup r s) = Inr 0 \<Longrightarrow> r = Inr 0"
  by (auto simp: finally_cleanup_def split: prod.splits sum.splits)

lemma run_status_zero:
  assumes "fst (run cmd s) = Inr 0"
  shows "\<exists>s1. fst (cmd s1) = Inr (Some True) \<or> fst (cmd s1) = Inl KeyboardInterrupt \<or> fst (cmd s1) = Inl SystemExit"
proof -
  obtain u0 s0 where p: "parse_args s = (u0, s0)" by (cases "parse_args s")
  obtain u1 s1 where q: "setup_app s0 = (u1, s1)" by (cases "setup_app s0")
  obtain r s2 where c: "cmd s1 = (r, s2)" by (cases "cmd s1")
  have u0: "u0 = Inr ()" using assms p by (cases u0) (auto simp: run_def and_then_def)
  have u1: "u1 = Inr ()" using assms p q u0 by (cases u1) (auto simp: run_def and_then_def)
  have "r = Inr (Some True) \<or> r = Inl KeyboardInterrupt \<or> r = Inl SystemExit"
  proof (cases r)
    case (Inl e)
    then show ?thesis using assms p q c u0 u1 finally_cleanup_zero [of "Inl e" s2]
      by (auto simp: run_def and_then_def split: if_splits)
  next
    case (Inr v)
    then show ?thesis using assms p q c u0 u1
        finally_cleanup_zero [of "Inr (if v = Some True then 0 else 1)" s2]
      by (auto simp: run_def and_then_def split: if_splits)
  qed
  then show ?thesis using c by (metis fst_conv)
qed

lemma at_never_exits_zero: "fst (run (at E) s) \<noteq> Inr 0"
proof
  assume "fst (run (at E) s) = Inr 0"
  then obtain s1 where "fst (at E s1) = Inr (Some True) \<or> fst (at E s1) = Inl KeyboardInterrupt \<or> fst (at E s1) = Inl SystemExit"
    using run_status_zero by blast
  then show False using at_result [of E s1] by auto
qed

lemmas session_defs =
  run_def and_then_def parse_args_def setup_app_def finally_cleanup_def cleanup_def power_down_def
  gpio_constant_def gpio_output_def gpio_output_local_def
  at_def at_command_def ser_read_until_def ends_with_def emit_def sleep_def Let_def
  sample_codec_def raw_at_def answering_def initial_app_def str_def

text \<open>
  Claim C8 says that the exit status is 0 when the operation succeeds. For the raw
  command it is not: the modem answers \<^verbatim>\<open>OK\<close>, the exchange succeeds and the response is
  printed, but \<^verbatim>\<open>at\<close> returns \<^verbatim>\<open>None\<close> and \<^verbatim>\<open>run\<close> returns the status 1. (By
  \<open>at_never_exits_zero\<close> no raw command ever ends with status 0.)
\<close>

theorem raw_at_exit_status:
  "fst (at_command sample_codec (str ''ATI'') (str ''OK'') 2 False (answering ''OK''))
     = Inr (True, [13, 10] @ str ''OK'')
   \<and> fst (run (at sample_codec) raw_at) = Inr 1
   \<and> Stdout ([13, 10] @ str ''OK'') \<in> set (trace (snd (run (at sample_codec) raw_at)))"
  by (simp add: session_defs)

lemma cleanups_cleanup: "cleanups (trace (snd (cleanup s))) = cleanups (trace s) + 1"
  by (simp add: cleanup_def cleanups_def power_down_def and_then_def gpio_output_def emit_def
      sleep_def Let_def)

lemma cleanup_closes: "has_ser s \<Longrightarrow> SerClose \<in> set (trace (snd (cleanup s)))"
  by (simp add: cleanup_def power_down_def and_then_def gpio_output_def emit_def sleep_def Let_def)

lemma cleanup_returns: "\<not> powered s \<Longrightarrow> fst (cleanup s) = Inr ()"
  by (simp add: cleanup_def power_down_def emit_def Let_def)

text \<open>
  Claim C7, as stated: on every exit path of \<^verbatim>\<open>App.run\<close> the cleanup step is executed.
  It is not when \<^verbatim>\<open>setup\<close> or \<^verbatim>\<open>parse_args\<close> fails: both calls are outside the \<^verbatim>\<open>try\<close> block,
  so that a port that cannot be opened ends \<^verbatim>\<open>run\<close> with the exception and without
  cleanup, and so does a configured power pin, for which \<^verbatim>\<open>parse_args\<close> raises
  \<^verbatim>\<open>NameError\<close>.
\<close>

theorem cleanup_skipped_counterexample:
  "fst (run (at sample_codec) (raw_at\<lparr>port_ok := False\<rparr>)) = Inl SerialException
   \<and> cleanups (trace (snd (run (at sample_codec) (raw_at\<lparr>port_ok := False\<rparr>)))) = 0
   \<and> fst (run (at sample_codec) (raw_at\<lparr>pwrpin := 4\<rparr>)) = Inl NameError
   \<and> cleanups (trace (snd (run (at sample_codec) (raw_at\<lparr>pwrpin := 4\<rparr>)))) = 0"
  by (simp add: session_defs cleanups_def)

text \<open>
  Claim C7, amended: once \<^verbatim>\<open>parse_args\<close> and \<^verbatim>\<open>setup\<close> have completed, on every exit path
  of the selected operation (normal completion with any value, any propagated
  exception, an interrupt) \<^verbatim>\<open>cleanup\<close> is executed exactly once, after the operation: the
  final state is the one \<open>cleanup\<close> leaves when run on the state the operation left,
  the trace has one more entry into \<open>cleanup\<close> than the operation left, and the port
  is closed. Unless the operation has set the flag \<open>powered\<close>, \<open>cleanup\<close> returns
  normally; then an interrupt gives the status 0 and any other exception is raised
  again after the cleanup.
\<close>

theorem cleanup_after_operation:
  assumes "fst (parse_args s) = Inr ()" and "fst (setup_app (snd (parse_args s))) = Inr ()"
  shows "let s1 = snd (setup_app (snd (parse_args s))); r = fst (cmd s1); s2 = snd (cmd s1);
             interrupt = (r = Inl KeyboardInterrupt \<or> r = Inl SystemExit);
             s3 = (if interrupt then emit (Log INFO ''Received interrupt. Exiting...'') s2 else s2)
         in snd (run cmd s) = snd (cleanup s3)
          \<and> cleanups (trace (snd (run cmd s))) = cleanups (trace s2) + 1
          \<and> (has_ser s2 \<longrightarrow> SerClose \<in> set (trace (snd (run cmd s))))
          \<and> (\<not> powered s2 \<longrightarrow> fst (cleanup s3) = Inr ())
          \<and> fst (run cmd s)
              = (case fst (cleanup s3) of
                   Inl e \<Rightarrow> Inl e
                 | Inr u \<Rightarrow>
                     if interrupt then Inr 0
                     else case r of Inl e \<Rightarrow> Inl e | Inr v \<Rightarrow> Inr (if v = Some True then 0 else 1))"
proof -
  obtain s0 where p: "parse_args s = (Inr (), s0)" using assms(1) by (cases "parse_args s") auto
  obtain s1 where q: "setup_app s0 = (Inr (), s1)" using assms(2) p by (cases "setup_app s0") auto
  obtain r s2 where c: "cmd s1 = (r, s2)" by (cases "cmd s1")
  define interrupt where "interrupt \<longleftrightarrow> r = Inl KeyboardInterrupt \<or> r = Inl SystemExit"
  define s3 where "s3 = (if interrupt then emit (Log INFO ''Received interrupt. Exiting...'') s2 else s2)"
  define res :: "error + int" where
    "res = (if interrupt then Inr 0
            else case r of Inl e \<Rightarrow> Inl e | Inr v \<Rightarrow> Inr (if v = Some True then 0 else 1))"
  have run: "run cmd s = finally_cleanup res s3"
    by (cases r) (auto simp: run_def and_then_def p q c res_def s3_def interrupt_def)
  have tr: "cleanups (trace s3) = cleanups (trace s2)"
    by (simp add: s3_def emit_def cleanups_def)
  have hs: "has_ser s3 = has_ser s2" and pw: "powered s3 = powered s2"
    by (simp_all add: s3_def emit_def)
  have 1: "snd (run cmd s) = snd (cleanup s3)"
    unfolding run by (auto simp: finally_cleanup_def split: prod.splits sum.splits)
  have 2: "cleanups (trace (snd (run cmd s))) = cleanups (trace s2) + 1"
    unfolding 1 using cleanups_cleanup [of s3] tr by simp
  have 3: "has_ser s2 \<longrightarrow> SerClose \<in> set (trace (snd (run cmd s)))"
    unfolding 1 using cleanup_closes [of s3] hs by simp
  have 4: "\<not> powered s2 \<longrightarrow> fst (cleanup s3) = Inr ()"
    using cleanup_returns [of s3] pw by simp
  have 5: "fst (run cmd s) = (case fst (cleanup s3) of Inl e \<Rightarrow> Inl e | Inr u \<Rightarrow> res)"
    unfolding run by (auto simp: finally_cleanup_def split: prod.splits sum.splits)
  show ?thesis
    unfolding Let_def p q c fst_conv snd_conv
    using 1 2 3 4 5 unfolding res_def s3_def interrupt_def by simp
qed

theorem cleanup_after_operation_witness:
  "fst (parse_args raw_at) = Inr ()
   \<and> fst (setup_app (snd (parse_args raw_at))) = Inr ()
   \<and> fst (run (at sample_codec) raw_at) = Inr 1
   \<and> cleanups (trace (snd (run (at sample_codec) raw_at))) = 1
   \<and> SerClose \<in> set (trace (snd (run (at sample_codec) raw_at)))
   \<and> fst (run interrupted raw_at) = Inr 0
   \<and> cleanups (trace (snd (run interrupted raw_at))) = 1"
proof -
  have p: "fst (parse_args raw_at) = Inr ()"
    by (simp add: parse_args_def raw_at_def answering_def initial_app_def)
  have q: "fst (setup_app (snd (parse_args raw_at))) = Inr ()"
    by (simp add: setup_app_def parse_args_def raw_at_def answering_def initial_app_def Let_def emit_def)
  define s1 where "s1 = snd (setup_app (snd (parse_args raw_at)))"
  have a: "(case at sample_codec s1 of
              (r, s2) \<Rightarrow> r = Inr None \<and> cleanups (trace s2) = 0 \<and> has_ser s2 \<and> \<not> powered s2)"
    unfolding s1_def by (simp add: session_defs cleanups_def)
  have c: "(case interrupted s1 of
              (r, s2) \<Rightarrow> r = Inl KeyboardInterrupt \<and> cleanups (trace s2) = 0 \<and> \<not> powered s2)"
    unfolding s1_def by (simp add: interrupted_def session_defs cleanups_def)
  note t1 = cleanup_after_operation [OF p q, of "at sample_codec", unfolded Let_def, folded s1_def, THEN conjunct2]
  note t2 = cleanup_after_operation [OF p q, of interrupted, unfolded Let_def, folded s1_def, THEN conjunct2]
  have e: "cleanups (trace (snd (run (at sample_codec) raw_at))) = 1
         \<and> SerClose \<in> set (trace (snd (run (at sample_codec) raw_at)))
         \<and> fst (run (at sample_codec) raw_at) = Inr 1"
    using t1 a by (auto simp: case_prod_beta)
  have f: "cleanups (trace (snd (run interrupted raw_at))) = 1
         \<and> fst (run interrupted raw_at) = Inr 0"
    using t2 c by (auto simp: case_prod_beta)
  show ?thesis using p q e f by simp
qed


subsection \<open>Message sender\<close>

lemmas eval_defs =
  send_def read_message_def strip_def isspace_def power_up_def and_then_def check_connection_def
  check_loop.simps creg_accepted_def creg_match_def isdigit_def
  at_command_def ser_read_until_def ends_with_def emit_def sleep_def Let_def
  sample_codec_def with_surrogates_def nonbmp_def decimal.simps
  sending_def registered_def initial_app_def str_def

lemma send_one_chunk:
  "(case send sample_codec (sending ''Hi'' []) of
      (r, s') \<Rightarrow> r = Inr (Some True)
        \<and> SerWrite (str ''Hi'') \<notin> set (trace s')
        \<and> Stderr (str ''Message sent successfully'') \<in> set (trace s'))"
  by (simp add: eval_defs)

lemma send_two_chunks:
  "(case send sample_codec (sending ''HelloYou'' prompt_lost) of
      (r, s') \<Rightarrow> r = Inr (Some True)
        \<and> SerWrite (str ''Hell'') \<notin> set (trace s')
        \<and> SerWrite (str ''oYou'') \<in> set (trace s'))"
  by (simp add: eval_defs prompt_lost_def)

lemma send_ack_lost:
  "(case send sample_codec (sending ''HelloYou'' ack_lost) of
      (r, s') \<Rightarrow> r = Inr (Some False)
        \<and> SerWrite (str ''Hell'') \<in> set (trace s')
        \<and> SerWrite (str ''oYou'') \<notin> set (trace s'))"
  by (simp add: eval_defs ack_lost_def)

text \<open>
  Claim C3 says that \<open>send\<close> aborts on the first chunk that fails the prompt step and
  reports success only if every chunk is acknowledged. When the prompt \<^verbatim>\<open>>\<close> does not
  arrive, the loop goes on to the next chunk instead: a one-chunk message is never
  written to the modem and \<open>send\<close> still prints \<^verbatim>\<open>Message sent successfully\<close> and returns
  \<^verbatim>\<open>True\<close>; of a two-chunk message the second chunk is transmitted after the first has
  failed. (A missing acknowledgment does abort the loop: \<open>send_ack_lost\<close>.)
\<close>

theorem send_reports_success_unsent:
  "fst (send sample_codec (sending ''Hi'' [])) = Inr (Some True)
   \<and> SerWrite (str ''Hi'') \<notin> set (trace (snd (send sample_codec (sending ''Hi'' []))))
   \<and> Stderr (str ''Message sent successfully'') \<in> set (trace (snd (send sample_codec (sending ''Hi'' []))))
   \<and> fst (send sample_codec (sending ''HelloYou'' prompt_lost)) = Inr (Some True)
   \<and> SerWrite (str ''Hell'') \<notin> set (trace (snd (send sample_codec (sending ''HelloYou'' prompt_lost))))
   \<and> SerWrite (str ''oYou'') \<in> set (trace (snd (send sample_codec (sending ''HelloYou'' prompt_lost))))"
  using send_one_chunk send_two_chunks by (simp add: case_prod_beta)

subsection \<open>Receiving\<close>


lemma options_timeout: "options (s\<lparr>ser_timeout := x\<rparr>) = options s"
  by (simp add: options_def)

lemma options_read: "ser_read_until bb s = (b, s') \<Longrightarrow> options s' = options s"
  by (auto simp: options_def ser_read_until_def split: list.splits prod.splits)






















subsection \<open>Network registration monitor\<close>























end
